theory Spec2Isabelle
  imports Complex_Main
begin

section \<open>Values and records of the document store\<close>

text \<open>
  A record fetched from the store is a Python \<open>dict\<close> from field names to dynamically
  typed values. The values are the ones the driver decodes: \<open>None\<close>, \<open>bool\<close>,
  \<open>int\<close>, the driver's \<open>Int64\<close> (a subclass of \<open>int\<close>), \<open>float\<close>, \<open>str\<close>,
  nested \<open>dict\<close>, \<open>list\<close>, and driver types such as \<open>ObjectId\<close> or
  \<open>datetime\<close>.

  No floating point arithmetic is modelled: a finite \<open>float\<close> is the rational number it
  denotes together with its printed form, which is all the program asks of it (its type
  name, \<open>str\<close>, and \<open>==\<close>). A driver type is kept opaque: its type name, its
  \<open>str\<close> form and its \<open>repr\<close> form, and two opaque values are equal when all
  three agree. NaN and the unhashable driver types are not part of the value model.

  A \<open>dict\<close> is an association list in insertion order; every lookup goes through
  \<open>map_of\<close>.
\<close>

datatype pyval =
    VNone
  | VBool bool
  | VInt int
  | VInt64 int
  | VFloat rat string
  | VStr string
  | VDict "(string \<times> pyval) list"
  | VList "pyval list"
  | VOther string string string

type_synonym doc = "(string \<times> pyval) list"

text \<open>\<^verbatim>\<open>type(v).__name__\<close>\<close>

fun type_name :: "pyval \<Rightarrow> string" where
  "type_name VNone = ''NoneType''"
| "type_name (VBool b) = ''bool''"
| "type_name (VInt i) = ''int''"
| "type_name (VInt64 i) = ''Int64''"
| "type_name (VFloat x s) = ''float''"
| "type_name (VStr s) = ''str''"
| "type_name (VDict kvs) = ''dict''"
| "type_name (VList vs) = ''list''"
| "type_name (VOther tn s r) = tn"

text \<open>\<^verbatim>\<open>isinstance(v, (dict, list))\<close>\<close>

fun is_composite :: "pyval \<Rightarrow> bool" where
  "is_composite (VDict kvs) = True"
| "is_composite (VList vs) = True"
| "is_composite v = False"

subsection \<open>The built-in \<open>str\<close>\<close>

definition digit_char :: "nat \<Rightarrow> char" where
  "digit_char n = ''0123456789abcdef'' ! n"

function str_nat :: "nat \<Rightarrow> string" where
  "str_nat n = (if n < 10 then [digit_char n] else str_nat (n div 10) @ [digit_char (n mod 10)])"
  by pat_completeness auto
termination
  by (relation "measure id") auto

declare str_nat.simps [simp del]

definition str_int :: "int \<Rightarrow> string" where
  "str_int i = (if i < 0 then CHR ''-'' # str_nat (nat (- i)) else str_nat (nat i))"

text \<open>
  \<open>repr\<close> of a \<open>str\<close>: single quotes, unless the text holds a single quote and no
  double quote; the quote and the backslash are escaped, and so are the control
  characters. This is Python's \<open>repr\<close> on ASCII text. Bytes above 127 are copied as they
  are, where Python escapes the characters outside ASCII that are not printable (U+00A0
  as \<^verbatim>\<open>\xa0\<close>); \<open>repr\<close> of a \<open>str\<close> is only reached for text nested in a
  \<open>dict\<close> or \<open>list\<close> value.
\<close>

definition repr_quote :: "string \<Rightarrow> char" where
  "repr_quote s = (if CHR 0x27 \<in> set s \<and> CHR 0x22 \<notin> set s then CHR 0x22 else CHR 0x27)"

definition repr_char :: "char \<Rightarrow> char \<Rightarrow> string" where
  "repr_char q c =
     (if c = q \<or> c = CHR 0x5C then [CHR 0x5C, c]
      else if c = CHR 0x09 then [CHR 0x5C, CHR ''t'']
      else if c = CHR 0x0A then [CHR 0x5C, CHR ''n'']
      else if c = CHR 0x0D then [CHR 0x5C, CHR ''r'']
      else if (of_char c :: nat) < 32 \<or> (of_char c :: nat) = 127
        then [CHR 0x5C, CHR ''x'', digit_char ((of_char c :: nat) div 16),
              digit_char ((of_char c :: nat) mod 16)]
      else [c])"

definition repr_str :: "string \<Rightarrow> string" where
  "repr_str s = (let q = repr_quote s in q # concat (map (repr_char q) s) @ [q])"

fun py_join :: "string \<Rightarrow> string list \<Rightarrow> string" where
  "py_join sep [] = []"
| "py_join sep [x] = x"
| "py_join sep (x # y # ys) = x @ sep @ py_join sep (y # ys)"

fun py_repr :: "pyval \<Rightarrow> string" where
  "py_repr VNone = ''None''"
| "py_repr (VBool b) = (if b then ''True'' else ''False'')"
| "py_repr (VInt i) = str_int i"
| "py_repr (VInt64 i) = str_int i"
| "py_repr (VFloat x s) = s"
| "py_repr (VStr s) = repr_str s"
| "py_repr (VDict kvs) =
     ''{'' @ py_join '', '' (map (\<lambda>(k, v). repr_str k @ '': '' @ py_repr v) kvs) @ ''}''"
| "py_repr (VList vs) = ''['' @ py_join '', '' (map py_repr vs) @ '']''"
| "py_repr (VOther tn s r) = r"

fun py_str :: "pyval \<Rightarrow> string" where
  "py_str (VStr s) = s"
| "py_str (VOther tn s r) = s"
| "py_str v = py_repr v"

subsection \<open>Equality of hashable values, and \<open>len(set(...))\<close>\<close>

text \<open>
  Python's \<open>==\<close> on the scalar values: numbers are compared by value across
  \<open>bool\<close>, \<open>int\<close>, \<open>Int64\<close> and \<open>float\<close> (\<open>True == 1 == 1.0\<close>, with equal
  hashes), everything else is equal only to itself. \<open>py_key\<close> picks one representative
  of each class of equal values.
\<close>

fun py_key :: "pyval \<Rightarrow> pyval" where
  "py_key (VBool b) = VInt (if b then 1 else 0)"
| "py_key (VInt64 i) = VInt i"
| "py_key (VFloat x s) = (if of_int \<lfloor>x\<rfloor> = x then VInt \<lfloor>x\<rfloor> else VFloat x [])"
| "py_key v = v"

definition py_eq :: "pyval \<Rightarrow> pyval \<Rightarrow> bool" where
  "py_eq a b = (py_key a = py_key b)"

text \<open>
  \<open>set(...)\<close> of hashable values, element by element. On a value of a driver type
  without \<open>__hash__\<close> (\<open>Decimal128\<close>, \<open>Regex\<close>) Python raises \<open>TypeError\<close> here,
  and every decoded NaN is an element of its own: such values are outside \<open>pyval\<close>, and
  what is proved below is about samples without them.
\<close>

definition set_add :: "pyval list \<Rightarrow> pyval \<Rightarrow> pyval list" where
  "set_add s v = (if list_ex (py_eq v) s then s else s @ [v])"

definition py_set :: "pyval list \<Rightarrow> pyval list" where
  "py_set vs = foldl set_add [] vs"


section \<open>The collaborator\<close>

text \<open>
  The driver calls the program makes on the selected collection. Each call either raises
  (\<open>Inl\<close>, with the exception's message) or returns its result. \<open>db_find\<close> is the
  unfiltered cursor in natural order; \<open>db_count_exists f\<close> is
  \<^verbatim>\<open>count_documents({f: {"$exists": True}})\<close>.
\<close>

datatype error = BackendError string | ZeroDivisionError

fun message :: "error \<Rightarrow> string" where
  "message (BackendError msg) = msg"
| "message ZeroDivisionError = ''division by zero''"

record coll_stats =
  cs_size :: "nat option"
  cs_avgObjSize :: "nat option"
  cs_storageSize :: "nat option"
  cs_totalIndexSize :: "nat option"
  cs_indexSizes :: "(string \<times> nat) list option"

record collection =
  db_count_documents :: "error + nat"
  db_collstats :: "error + coll_stats"
  db_find :: "error + doc list"
  db_count_exists :: "string \<Rightarrow> error + nat"
  db_distinct :: "string \<Rightarrow> error + pyval list"

section \<open>Collection statistics\<close>

text \<open>
  The report is the \<open>stats\<close> dict of \<open>get_detailed_collection_stats\<close>. The five
  keys of the field analysis are set only inside \<^verbatim>\<open>if sample_docs:\<close>, so each is
  optional: \<open>None\<close> is a key that is not in the dict. The per-field dicts are keyed by
  field name and are maps; the inner dicts, whose insertion order the sort by count
  shows, are association lists.

  Numbers that Python computes with \<open>/\<close> and \<open>round\<close> are exact rationals here.
\<close>

record coverage =
  count :: nat
  coverage_pct :: rat

record stats =
  doc_count :: nat
  size_mb :: rat
  avg_doc_size_kb :: rat
  storage_size_mb :: rat
  index_size_mb :: rat
  index_count :: nat
  field_count :: "nat option"
  field_coverage :: "(string \<rightharpoonup> coverage) option"
  field_types :: "(string \<rightharpoonup> (string \<times> nat) list) option"
  value_distributions :: "(string \<rightharpoonup> (string \<times> nat) list) option"
  distinct_counts :: "(string \<rightharpoonup> nat) option"

text \<open>\<^verbatim>\<open>d.get(key, 0)\<close>\<close>

definition get_or_0 :: "nat option \<Rightarrow> nat" where
  "get_or_0 x = (case x of None \<Rightarrow> 0 | Some n \<Rightarrow> n)"

text \<open>\<^verbatim>\<open>round(x, 2)\<close>: to two decimals, a tie to the even neighbour.\<close>

definition round2 :: "rat \<Rightarrow> rat" where
  "round2 x =
     (let y = x * 100; f = \<lfloor>y\<rfloor>; d = y - of_int f
      in of_int (if d < 1 / 2 then f else if 1 / 2 < d then f + 1
                 else if even f then f else f + 1) / 100)"

text \<open>\<^verbatim>\<open>a / b\<close> on integers raises when \<open>b\<close> is zero.\<close>

definition truediv :: "nat \<Rightarrow> nat \<Rightarrow> error + rat" where
  "truediv a b = (if b = 0 then Inl ZeroDivisionError else Inr (of_nat a / of_nat b))"

text \<open>
  The counting idiom of the source, on a dict in insertion order:
  \<^verbatim>\<open>if k in d: d[k] += 1 else: d[k] = 1\<close>
\<close>

fun tally :: "(string \<times> nat) list \<Rightarrow> string \<Rightarrow> (string \<times> nat) list" where
  "tally [] k = [(k, 1)]"
| "tally ((k', c) # d) k = (if k' = k then (k', c + 1) # d else (k', c) # tally d k)"

text \<open>
  \<^verbatim>\<open>sorted(d.items(), key=lambda x: x[1], reverse=True)\<close>: Python's sort is stable,
  also with \<open>reverse=True\<close>, so items with equal counts keep their order.
\<close>

definition sorted_desc :: "(string \<times> nat) list \<Rightarrow> (string \<times> nat) list" where
  "sorted_desc items = sort_key (\<lambda>x. - int (snd x)) items"

text \<open>
  \<open>all_fields\<close> is a Python set; its iteration order is not specified. The model
  enumerates it without repetition, and the dicts built from it are maps, which do not
  record the order.
\<close>

definition all_fields :: "doc list \<Rightarrow> string list" where
  "all_fields sample_docs = remdups (concat (map (map fst) sample_docs))"

text \<open>\<^verbatim>\<open>sum(1 for doc in sample_docs if field in doc)\<close>\<close>

definition presence :: "string \<Rightarrow> doc list \<Rightarrow> nat" where
  "presence field sample_docs = length (filter (\<lambda>doc. map_of doc field \<noteq> None) sample_docs)"

text \<open>\<^verbatim>\<open>[doc.get(field) for doc in sample_docs if field in doc]\<close>\<close>

definition field_values :: "string \<Rightarrow> doc list \<Rightarrow> pyval list" where
  "field_values field sample_docs = List.map_filter (\<lambda>doc. map_of doc field) sample_docs"

fun coverage_loop ::
  "doc list \<Rightarrow> string list \<Rightarrow> (string \<rightharpoonup> coverage) \<Rightarrow> error + (string \<rightharpoonup> coverage)" where
  "coverage_loop sample_docs [] fc = Inr fc"
| "coverage_loop sample_docs (field # flds) fc =
     (if field \<noteq> ''_id'' then
        (let n = presence field sample_docs in
         case truediv n (length sample_docs) of
           Inl e \<Rightarrow> Inl e
         | Inr q \<Rightarrow> coverage_loop sample_docs flds
                      (fc(field \<mapsto> \<lparr>count = n, coverage_pct = q * 100\<rparr>)))
      else coverage_loop sample_docs flds fc)"

definition type_counts :: "string \<Rightarrow> doc list \<Rightarrow> (string \<times> nat) list" where
  "type_counts field sample_docs =
     foldl (\<lambda>tc doc. case map_of doc field of None \<Rightarrow> tc | Some v \<Rightarrow> tally tc (type_name v))
       [] sample_docs"

definition types_loop :: "doc list \<Rightarrow> string list \<Rightarrow> (string \<rightharpoonup> (string \<times> nat) list)" where
  "types_loop sample_docs flds =
     foldl (\<lambda>ft field. ft(field \<mapsto> type_counts field sample_docs)) Map.empty flds"

definition value_counts :: "pyval list \<Rightarrow> (string \<times> nat) list" where
  "value_counts vals = foldl (\<lambda>vc val. tally vc (py_str val)) [] vals"

text \<open>
  The body of the value distribution loop for one field: \<open>None\<close> when the guard
  \<^verbatim>\<open>field_values and not isinstance(field_values[0], (dict, list))\<close> fails and no
  entry is stored.
\<close>

definition field_distribution :: "pyval list \<Rightarrow> (string \<times> nat) list option" where
  "field_distribution vals =
     (case vals of
        [] \<Rightarrow> None
      | v0 # rest \<Rightarrow>
          if \<not> is_composite v0 then Some (take 10 (sorted_desc (value_counts vals)))
          else None)"

definition distributions_loop ::
  "doc list \<Rightarrow> string list \<Rightarrow> (string \<rightharpoonup> (string \<times> nat) list)" where
  "distributions_loop sample_docs flds =
     foldl (\<lambda>vd field.
        if field \<noteq> ''_id'' then
          (case field_distribution (field_values field sample_docs) of
             None \<Rightarrow> vd
           | Some sorted_values \<Rightarrow> vd(field \<mapsto> sorted_values))
        else vd) Map.empty flds"

definition distinct_loop :: "doc list \<Rightarrow> string list \<Rightarrow> (string \<rightharpoonup> nat)" where
  "distinct_loop sample_docs flds =
     foldl (\<lambda>dc field.
        if field \<noteq> ''_id'' then
          dc(field \<mapsto> length (py_set (filter (\<lambda>v. \<not> is_composite v)
                                      (field_values field sample_docs))))
        else dc) Map.empty flds"

definition basic_stats :: "nat \<Rightarrow> coll_stats \<Rightarrow> stats" where
  "basic_stats n cs =
     \<lparr>doc_count = n,
      size_mb = round2 (of_nat (get_or_0 (cs_size cs)) / (1024 * 1024)),
      avg_doc_size_kb =
        (if get_or_0 (cs_avgObjSize cs) > 0
         then round2 (of_nat (get_or_0 (cs_avgObjSize cs)) / 1024) else 0),
      storage_size_mb = round2 (of_nat (get_or_0 (cs_storageSize cs)) / (1024 * 1024)),
      index_size_mb = round2 (of_nat (get_or_0 (cs_totalIndexSize cs)) / (1024 * 1024)),
      index_count = (case cs_indexSizes cs of None \<Rightarrow> 0 | Some ix \<Rightarrow> length ix),
      field_count = None, field_coverage = None, field_types = None,
      value_distributions = None, distinct_counts = None\<rparr>"

definition field_analysis :: "doc list \<Rightarrow> stats \<Rightarrow> error + stats" where
  "field_analysis sample_docs st =
     (let flds = all_fields sample_docs in
      case coverage_loop sample_docs flds Map.empty of
        Inl e \<Rightarrow> Inl e
      | Inr fc \<Rightarrow>
          Inr (st\<lparr>field_count := Some (length flds),
                  field_coverage := Some fc,
                  field_types := Some (types_loop sample_docs flds),
                  value_distributions := Some (distributions_loop sample_docs flds),
                  distinct_counts := Some (distinct_loop sample_docs flds)\<rparr>))"

definition get_detailed_collection_stats :: "collection \<Rightarrow> error + stats" where
  "get_detailed_collection_stats coll =
     (case db_count_documents coll of
        Inl e \<Rightarrow> Inl e
      | Inr n \<Rightarrow>
         (case db_collstats coll of
            Inl e \<Rightarrow> Inl e
          | Inr cs \<Rightarrow>
             (case db_find coll of
                Inl e \<Rightarrow> Inl e
              | Inr cursor \<Rightarrow>
                 (let sample_docs = take 100 cursor; st = basic_stats n cs
                  in if sample_docs \<noteq> [] then field_analysis sample_docs st else Inr st))))"

text \<open>
  The caller: the call sits in the \<open>try\<close> of the main interface, whose handler shows
  \<^verbatim>\<open>f"Error: {e}"\<close>; the field count is read with \<^verbatim>\<open>stats.get('field_count', 0)\<close>.
\<close>

definition show_stats :: "collection \<Rightarrow> string + stats" where
  "show_stats coll =
     (case get_detailed_collection_stats coll of
        Inl e \<Rightarrow> Inl (''Error: '' @ message e)
      | Inr st \<Rightarrow> Inr st)"

definition shown_field_count :: "stats \<Rightarrow> nat" where
  "shown_field_count st = get_or_0 (field_count st)"

text \<open>
  The tabs read a per-field dict only when its key is in \<open>stats\<close>, and one field's
  entry only when the field is in that dict.
\<close>

definition entry :: "(string \<rightharpoonup> 'v) option \<Rightarrow> string \<Rightarrow> 'v option" where
  "entry d field = (case d of None \<Rightarrow> None | Some m \<Rightarrow> m field)"

section \<open>Exact analysis of one field\<close>

record field_report =
  coverage :: rat
  fr_field_count :: nat
  unique_values :: nat

definition analyze_field :: "collection \<Rightarrow> string \<Rightarrow> error + field_report" where
  "analyze_field coll field_to_analyze =
     (case db_count_documents coll of
        Inl e \<Rightarrow> Inl e
      | Inr n \<Rightarrow>
         (case db_count_exists coll field_to_analyze of
            Inl e \<Rightarrow> Inl e
          | Inr k \<Rightarrow>
             (let cov = (if n > 0 then of_nat k / of_nat n * 100 else 0) in
              case db_distinct coll field_to_analyze of
                Inl e \<Rightarrow> Inl e
              | Inr vals \<Rightarrow>
                  Inr \<lparr>coverage = cov, fr_field_count = k, unique_values = length vals\<rparr>)))"

section \<open>The Fields metric of the first version\<close>

text \<open>
  \<open>mongo.py\<close>, the version of the page without the statistics function, shows a field
  count as well, from one record:
  \<^verbatim>\<open>len(sample_doc.keys()) - 1 if '_id' in sample_doc else len(sample_doc.keys())\<close>
\<close>

definition fields_metric :: "doc \<Rightarrow> nat" where
  "fields_metric sample_doc =
     (if map_of sample_doc ''_id'' \<noteq> None
      then length (remdups (map fst sample_doc)) - 1
      else length (remdups (map fst sample_doc)))"

section \<open>Notions used to state the properties\<close>

text \<open>The position at which a key is first met in a list.\<close>

definition first_seen :: "'a \<Rightarrow> 'a list \<Rightarrow> nat" where
  "first_seen k ks = length (takeWhile (\<lambda>x. x \<noteq> k) ks)"

text \<open>
  A collaborator for the examples: a store that holds the given records, answers every
  call and reports no size metrics.
\<close>

definition example_store :: "doc list \<Rightarrow> collection" where
  "example_store docs =
     \<lparr>db_count_documents = Inr (length docs),
      db_collstats = Inr \<lparr>cs_size = None, cs_avgObjSize = None, cs_storageSize = None,
                           cs_totalIndexSize = None, cs_indexSizes = None\<rparr>,
      db_find = Inr docs,
      db_count_exists = (\<lambda>field. Inr (presence field docs)),
      db_distinct = (\<lambda>field. Inr (py_set (field_values field docs)))\<rparr>"

text \<open>The three records of the scenario, each with its \<open>_id\<close>.\<close>

definition scenario_docs :: "doc list" where
  "scenario_docs =
     [[(''_id'', VInt 1), (''a'', VInt 1), (''b'', VStr ''x'')],
      [(''_id'', VInt 2), (''a'', VInt 2)],
      [(''_id'', VInt 3), (''a'', VInt 2), (''b'', VStr ''y''), (''c'', VNone)]]"

text \<open>A field that is a string in one record and a nested mapping in the next.\<close>

definition mixed_docs :: "doc list" where
  "mixed_docs = [[(''f'', VStr ''x'')], [(''f'', VDict [])]]"

text \<open>
  A field whose sampled values are, in this order: the string "x", the integer 1, the
  string "1", the boolean \<open>True\<close>, the string "True", \<open>None\<close>, and the string "1"
  again.
\<close>

definition merged_docs :: "doc list" where
  "merged_docs =
     [[(''v'', VStr ''x'')], [(''v'', VInt 1)], [(''v'', VStr ''1'')], [(''v'', VBool True)],
      [(''v'', VStr ''True'')], [(''v'', VNone)], [(''v'', VStr ''1'')]]"

text \<open>A field that is the integer 1 in one record and the string "1" in the next.\<close>

definition one_docs :: "doc list" where
  "one_docs = [[(''f'', VInt 1)], [(''f'', VStr ''1'')]]"

section \<open>Auxiliary facts\<close>

subsection \<open>Counting into a dict\<close>

lemma tally_keys:
  "map fst (tally d k) = (if k \<in> fst ` set d then map fst d else map fst d @ [k])"
  by (induction d k rule: tally.induct) auto


lemma tally_map_of:
  "map_of (tally d k) = (map_of d)(k \<mapsto> (case map_of d k of None \<Rightarrow> 1 | Some c \<Rightarrow> Suc c))"
  by (induction d k rule: tally.induct) (auto simp: fun_eq_iff)

lemma first_seen_less: "k \<in> set ks \<Longrightarrow> first_seen k ks < length ks"
  unfolding first_seen_def by (induction ks) auto

lemma first_seen_append_in: "k \<in> set ks \<Longrightarrow> first_seen k (ks @ ys) = first_seen k ks"
  unfolding first_seen_def by (simp add: takeWhile_append1)

lemma first_seen_append_new: "k \<notin> set ks \<Longrightarrow> first_seen k (ks @ [k]) = length ks"
  unfolding first_seen_def by (induction ks) auto

lemma tally_fold_keys:
  "distinct (map fst (foldl tally [] ks)) \<and> set (map fst (foldl tally [] ks)) = set ks \<and>
   sorted_wrt (\<lambda>a b. first_seen a ks < first_seen b ks) (map fst (foldl tally [] ks))"
proof (induction ks rule: rev_induct)
  case Nil
  show ?case by simp
next
  case (snoc k ks)
  let ?d = "foldl tally [] ks"
  from snoc have dist: "distinct (map fst ?d)" and keys: "set (map fst ?d) = set ks"
    and ord: "sorted_wrt (\<lambda>a b. first_seen a ks < first_seen b ks) (map fst ?d)"
    by simp_all
  have ord': "sorted_wrt (\<lambda>a b. first_seen a (ks @ [k]) < first_seen b (ks @ [k])) (map fst ?d)"
    using ord keys by (auto simp: first_seen_append_in elim!: sorted_wrt_mono_rel[rotated])
  show ?case
  proof (cases "k \<in> set ks")
    case True
    then have "map fst (foldl tally [] (ks @ [k])) = map fst ?d"
      using keys by (simp add: tally_keys)
    with dist keys ord' True show ?thesis by auto
  next
    case False
    then have eq: "map fst (foldl tally [] (ks @ [k])) = map fst ?d @ [k]"
      using keys by (simp add: tally_keys)
    have "\<forall>a\<in>set (map fst ?d). first_seen a (ks @ [k]) < first_seen k (ks @ [k])"
      using keys False by (auto simp: first_seen_append_in first_seen_append_new first_seen_less)
    with dist keys ord' False eq show ?thesis
      by (auto simp: sorted_wrt_append)
  qed
qed

lemma tally_fold_map_of:
  "map_of (foldl tally [] ks) k = (if k \<in> set ks then Some (count_list ks k) else None)"
  by (induction ks rule: rev_induct) (auto simp: tally_map_of count_list_0_iff)


lemma tally_fold_length: "length (foldl tally [] ks) = card (set ks)"
proof -
  have "length (foldl tally [] ks) = length (map fst (foldl tally [] ks))" by simp
  also have "\<dots> = card (set (map fst (foldl tally [] ks)))"
    using tally_fold_keys[of ks] by (metis distinct_card)
  also have "\<dots> = card (set ks)" using tally_fold_keys[of ks] by simp
  finally show ?thesis .
qed

lemma tally_fold_entry:
  assumes "(k, c) \<in> set (foldl tally [] ks)"
  shows "k \<in> set ks \<and> c = count_list ks k"
proof -
  have "distinct (map fst (foldl tally [] ks))" using tally_fold_keys[of ks] by simp
  with assms have "map_of (foldl tally [] ks) k = Some c" by simp
  then show ?thesis by (simp add: tally_fold_map_of split: if_splits)
qed

subsection \<open>Sorting by count\<close>

lemma ties_from_filters:
  assumes "\<And>c. sorted_wrt R (filter (\<lambda>y. key y = c) xs)"
  shows "sorted_wrt (\<lambda>x y. key x = key y \<longrightarrow> R x y) xs"
  using assms
proof (induction xs)
  case Nil
  show ?case by simp
next
  case (Cons x xs)
  have tail: "\<And>c. sorted_wrt R (filter (\<lambda>y. key y = c) xs)"
  proof -
    fix c
    from Cons.prems[of c] show "sorted_wrt R (filter (\<lambda>y. key y = c) xs)"
      by (cases "key x = c") simp_all
  qed
  have "\<forall>y\<in>set xs. key x = key y \<longrightarrow> R x y"
    using Cons.prems[of "key x"] by auto
  with Cons.IH[OF tail] show ?case by simp
qed

lemma sorted_desc_set: "set (sorted_desc items) = set items"
  by (simp add: sorted_desc_def)

lemma sorted_desc_length: "length (sorted_desc items) = length items"
  by (simp add: sorted_desc_def)

lemma sorted_desc_descending: "sorted_wrt (\<lambda>x y. snd y \<le> snd x) (sorted_desc items)"
proof -
  have "sorted (map (\<lambda>x. - int (snd x)) (sorted_desc items))"
    by (simp add: sorted_desc_def)
  then show ?thesis
    by (simp add: sorted_map sorted_wrt_iff_nth_less)
qed

lemma sorted_desc_ties:
  assumes "sorted_wrt R items"
  shows "sorted_wrt (\<lambda>x y. snd x = snd y \<longrightarrow> R x y) (sorted_desc items)"
proof -
  have "sorted_wrt R (filter (\<lambda>y. - int (snd y) = c) (sorted_desc items))" for c
    unfolding sorted_desc_def sort_key_stable using assms by (rule sorted_wrt_filter)
  then have "sorted_wrt (\<lambda>x y. - int (snd x) = - int (snd y) \<longrightarrow> R x y) (sorted_desc items)"
    by (rule ties_from_filters)
  then show ?thesis by simp
qed

subsection \<open>The set of hashable values\<close>

lemma py_set_keys:
  "distinct (map py_key (py_set vs)) \<and> set (map py_key (py_set vs)) = py_key ` set vs"
proof (induction vs rule: rev_induct)
  case Nil
  show ?case by (simp add: py_set_def)
next
  case (snoc v vs)
  then show ?case
    by (auto simp: py_set_def set_add_def list_ex_iff py_eq_def)
qed

lemma py_set_length: "length (py_set vs) = card (py_key ` set vs)"
proof -
  have "length (py_set vs) = length (map py_key (py_set vs))" by simp
  also have "\<dots> = card (set (map py_key (py_set vs)))"
    using py_set_keys[of vs] by (metis distinct_card)
  finally show ?thesis using py_set_keys[of vs] by simp
qed

lemma py_set_empty_iff: "length (py_set vs) = 0 \<longleftrightarrow> vs = []"
  by (simp add: py_set_length)

subsection \<open>The loops over the field names\<close>

lemma update_loop:
  "foldl (\<lambda>m f. case h f of None \<Rightarrow> m | Some x \<Rightarrow> m(f \<mapsto> x)) m0 fs k =
     (if k \<in> set fs then (case h k of None \<Rightarrow> m0 k | Some x \<Rightarrow> Some x) else m0 k)"
  by (induction fs arbitrary: m0) (auto split: option.splits)

lemma types_loop_at:
  "types_loop docs fs k = (if k \<in> set fs then Some (type_counts k docs) else None)"
  using update_loop[of "\<lambda>f. Some (type_counts f docs)" Map.empty fs k]
  by (simp add: types_loop_def)

lemma distributions_loop_at:
  "distributions_loop docs fs k =
     (if k \<in> set fs \<and> k \<noteq> ''_id'' then field_distribution (field_values k docs) else None)"
proof -
  have "distributions_loop docs fs =
    foldl (\<lambda>m f. case (if f \<noteq> ''_id'' then field_distribution (field_values f docs) else None) of
                   None \<Rightarrow> m | Some x \<Rightarrow> m(f \<mapsto> x)) Map.empty fs"
    unfolding distributions_loop_def
    by (rule arg_cong[where f = "\<lambda>g. foldl g Map.empty fs"]) (auto simp: fun_eq_iff)
  then show ?thesis
    by (simp add: update_loop split: option.splits)
qed

lemma distinct_loop_at:
  "distinct_loop docs fs k =
     (if k \<in> set fs \<and> k \<noteq> ''_id''
      then Some (length (py_set (filter (\<lambda>v. \<not> is_composite v) (field_values k docs))))
      else None)"
proof -
  have "distinct_loop docs fs =
    foldl (\<lambda>m f. case (if f \<noteq> ''_id''
                         then Some (length (py_set (filter (\<lambda>v. \<not> is_composite v) (field_values f docs))))
                         else None) of
                   None \<Rightarrow> m | Some x \<Rightarrow> m(f \<mapsto> x)) Map.empty fs"
    unfolding distinct_loop_def
    by (rule arg_cong[where f = "\<lambda>g. foldl g Map.empty fs"]) (auto simp: fun_eq_iff)
  then show ?thesis
    by (simp add: update_loop)
qed

lemma coverage_loop_at:
  assumes "docs \<noteq> []"
  shows "\<exists>fc. coverage_loop docs fs m = Inr fc \<and>
           (\<forall>k. fc k = (if k \<in> set fs \<and> k \<noteq> ''_id''
                        then Some \<lparr>count = presence k docs,
                                   coverage_pct = of_nat (presence k docs) / of_nat (length docs) * 100\<rparr>
                        else m k))"
  using assms
proof (induction fs arbitrary: m)
  case Nil
  show ?case by simp
next
  case (Cons f fs)
  show ?case
  proof (cases "f = ''_id''")
    case True
    with Cons.IH[OF Cons.prems, of m] show ?thesis by auto
  next
    case False
    let ?m = "m(f \<mapsto> \<lparr>count = presence f docs,
                coverage_pct = of_nat (presence f docs) / of_nat (length docs) * 100\<rparr>)"
    from Cons.IH[OF Cons.prems, of ?m] obtain fc where
      fc: "coverage_loop docs fs ?m = Inr fc"
        "\<forall>k. fc k = (if k \<in> set fs \<and> k \<noteq> ''_id''
                        then Some \<lparr>count = presence k docs,
                                   coverage_pct = of_nat (presence k docs) / of_nat (length docs) * 100\<rparr>
                        else ?m k)"
      by blast
    from False Cons.prems fc(1) have "coverage_loop docs (f # fs) m = Inr fc"
      by (simp add: truediv_def)
    with fc(2) False show ?thesis by auto
  qed
qed

lemma all_fields_set: "set (all_fields docs) = {f. \<exists>d\<in>set docs. map_of d f \<noteq> None}"
  by (auto simp: all_fields_def map_of_eq_None_iff image_iff)

lemma all_fields_distinct: "distinct (all_fields docs)"
  by (simp add: all_fields_def)

subsection \<open>The report, entry by entry\<close>


lemma field_values_nonempty: "field_values f docs \<noteq> [] \<longleftrightarrow> f \<in> set (all_fields docs)"
  by (auto simp: field_values_def List.map_filter_def all_fields_set filter_empty_conv)


lemma presence_le: "presence f docs \<le> length docs"
  by (simp add: presence_def)



lemma value_counts_tally: "value_counts vals = foldl tally [] (map py_str vals)"
  by (simp add: value_counts_def foldl_map)

text \<open>What the function returns, by the size of the sample.\<close>

lemma stats_returned:
  assumes "db_count_documents coll = Inr n" "db_collstats coll = Inr cs"
    "db_find coll = Inr cursor"
  shows "\<exists>st. get_detailed_collection_stats coll = Inr st \<and> doc_count st = n \<and>
     (if take 100 cursor = []
      then field_count st = None \<and> field_coverage st = None \<and> field_types st = None \<and>
           value_distributions st = None \<and> distinct_counts st = None
      else field_count st = Some (length (all_fields (take 100 cursor))) \<and>
           (\<exists>fc. field_coverage st = Some fc \<and>
              (\<forall>k. fc k = (if k \<in> set (all_fields (take 100 cursor)) \<and> k \<noteq> ''_id''
                 then Some \<lparr>count = presence k (take 100 cursor),
                            coverage_pct = of_nat (presence k (take 100 cursor))
                               / of_nat (length (take 100 cursor)) * 100\<rparr>
                 else None))) \<and>
           field_types st = Some (types_loop (take 100 cursor) (all_fields (take 100 cursor))) \<and>
           value_distributions st =
             Some (distributions_loop (take 100 cursor) (all_fields (take 100 cursor))) \<and>
           distinct_counts st =
             Some (distinct_loop (take 100 cursor) (all_fields (take 100 cursor))))"
proof (cases "take 100 cursor = []")
  case True
  with assms show ?thesis
    by (simp add: get_detailed_collection_stats_def basic_stats_def)
next
  case False
  from coverage_loop_at[OF False, of "all_fields (take 100 cursor)" Map.empty]
  obtain fc where fc: "coverage_loop (take 100 cursor) (all_fields (take 100 cursor)) Map.empty = Inr fc"
    "\<forall>k. fc k = (if k \<in> set (all_fields (take 100 cursor)) \<and> k \<noteq> ''_id''
                 then Some \<lparr>count = presence k (take 100 cursor),
                            coverage_pct = of_nat (presence k (take 100 cursor))
                               / of_nat (length (take 100 cursor)) * 100\<rparr>
                 else None)"
    by auto
  from assms False fc(1) have
    "get_detailed_collection_stats coll =
       Inr ((basic_stats n cs)\<lparr>field_count := Some (length (all_fields (take 100 cursor))),
             field_coverage := Some fc,
             field_types := Some (types_loop (take 100 cursor) (all_fields (take 100 cursor))),
             value_distributions :=
               Some (distributions_loop (take 100 cursor) (all_fields (take 100 cursor))),
             distinct_counts :=
               Some (distinct_loop (take 100 cursor) (all_fields (take 100 cursor)))\<rparr>)"
    by (simp add: get_detailed_collection_stats_def field_analysis_def Let_def)
  with False fc(2) show ?thesis
    by (simp add: basic_stats_def)
qed

lemma stats_returned_only:
  assumes "get_detailed_collection_stats coll = Inr st"
  shows "\<exists>n cs cursor. db_count_documents coll = Inr n \<and> db_collstats coll = Inr cs \<and>
           db_find coll = Inr cursor"
  using assms
  by (auto simp: get_detailed_collection_stats_def split: sum.splits)

lemma report_entries:
  assumes "get_detailed_collection_stats coll = Inr st" "db_find coll = Inr cursor"
  shows "entry (field_coverage st) k =
           (if k \<in> set (all_fields (take 100 cursor)) \<and> k \<noteq> ''_id''
            then Some \<lparr>count = presence k (take 100 cursor),
                       coverage_pct = of_nat (presence k (take 100 cursor))
                          / of_nat (length (take 100 cursor)) * 100\<rparr>
            else None)"
    and "entry (field_types st) k =
           (if k \<in> set (all_fields (take 100 cursor))
            then Some (type_counts k (take 100 cursor)) else None)"
    and "entry (value_distributions st) k =
           (if k \<in> set (all_fields (take 100 cursor)) \<and> k \<noteq> ''_id''
            then field_distribution (field_values k (take 100 cursor)) else None)"
    and "entry (distinct_counts st) k =
           (if k \<in> set (all_fields (take 100 cursor)) \<and> k \<noteq> ''_id''
            then Some (length (py_set (filter (\<lambda>v. \<not> is_composite v)
                                        (field_values k (take 100 cursor)))))
            else None)"
proof -
  from stats_returned_only[OF assms(1)] assms(2) obtain n cs where
    calls: "db_count_documents coll = Inr n" "db_collstats coll = Inr cs" by auto
  from stats_returned[OF calls assms(2)] assms(1) have st:
    "if take 100 cursor = []
      then field_count st = None \<and> field_coverage st = None \<and> field_types st = None \<and>
           value_distributions st = None \<and> distinct_counts st = None
      else field_count st = Some (length (all_fields (take 100 cursor))) \<and>
           (\<exists>fc. field_coverage st = Some fc \<and>
              (\<forall>k. fc k = (if k \<in> set (all_fields (take 100 cursor)) \<and> k \<noteq> ''_id''
                 then Some \<lparr>count = presence k (take 100 cursor),
                            coverage_pct = of_nat (presence k (take 100 cursor))
                               / of_nat (length (take 100 cursor)) * 100\<rparr>
                 else None))) \<and>
           field_types st = Some (types_loop (take 100 cursor) (all_fields (take 100 cursor))) \<and>
           value_distributions st =
             Some (distributions_loop (take 100 cursor) (all_fields (take 100 cursor))) \<and>
           distinct_counts st =
             Some (distinct_loop (take 100 cursor) (all_fields (take 100 cursor)))"
    by auto
  have empty: "take 100 cursor = [] \<Longrightarrow> all_fields (take 100 cursor) = []"
    by (simp add: all_fields_def)
  show "entry (field_coverage st) k =
           (if k \<in> set (all_fields (take 100 cursor)) \<and> k \<noteq> ''_id''
            then Some \<lparr>count = presence k (take 100 cursor),
                       coverage_pct = of_nat (presence k (take 100 cursor))
                          / of_nat (length (take 100 cursor)) * 100\<rparr>
            else None)"
    using st empty by (cases "take 100 cursor = []") (auto simp: entry_def)
  show "entry (field_types st) k =
           (if k \<in> set (all_fields (take 100 cursor))
            then Some (type_counts k (take 100 cursor)) else None)"
    using st empty by (cases "take 100 cursor = []") (auto simp: entry_def types_loop_at)
  show "entry (value_distributions st) k =
           (if k \<in> set (all_fields (take 100 cursor)) \<and> k \<noteq> ''_id''
            then field_distribution (field_values k (take 100 cursor)) else None)"
    using st empty by (cases "take 100 cursor = []") (auto simp: entry_def distributions_loop_at)
  show "entry (distinct_counts st) k =
           (if k \<in> set (all_fields (take 100 cursor)) \<and> k \<noteq> ''_id''
            then Some (length (py_set (filter (\<lambda>v. \<not> is_composite v)
                                        (field_values k (take 100 cursor)))))
            else None)"
    using st empty by (cases "take 100 cursor = []") (auto simp: entry_def distinct_loop_at)
qed

lemma example_store_returns:
  "\<exists>st. get_detailed_collection_stats (example_store docs) = Inr st"
  using stats_returned[of "example_store docs" "length docs" _ docs]
  by (auto simp: example_store_def)

section \<open>Failures of the collaborator\<close>

text \<open>
  Claim C5. An exception raised by the document count, the \<open>collstats\<close> command or
  the sample fetch is the result of \<open>get_detailed_collection_stats\<close>, unchanged, and
  the caller's handler shows its message. A report is returned only when all three calls
  returned, and then its document count and size metrics are the ones computed from what
  the collaborator answered: nothing is substituted for a failed call.
\<close>

theorem backend_errors_propagate:
  "(db_count_documents coll = Inl e \<longrightarrow>
      get_detailed_collection_stats coll = Inl e \<and>
      show_stats coll = Inl (''Error: '' @ message e)) \<and>
   (db_count_documents coll = Inr n \<and> db_collstats coll = Inl e \<longrightarrow>
      get_detailed_collection_stats coll = Inl e \<and>
      show_stats coll = Inl (''Error: '' @ message e)) \<and>
   (db_count_documents coll = Inr n \<and> db_collstats coll = Inr cs \<and> db_find coll = Inl e \<longrightarrow>
      get_detailed_collection_stats coll = Inl e \<and>
      show_stats coll = Inl (''Error: '' @ message e)) \<and>
   (get_detailed_collection_stats coll = Inr st \<longrightarrow>
      (\<exists>n' cs' cursor. db_count_documents coll = Inr n' \<and> db_collstats coll = Inr cs' \<and>
         db_find coll = Inr cursor \<and>
         st\<lparr>field_count := None, field_coverage := None, field_types := None,
            value_distributions := None, distinct_counts := None\<rparr> = basic_stats n' cs'))"
proof (intro conjI impI)
  assume "get_detailed_collection_stats coll = Inr st"
  then show "\<exists>n' cs' cursor. db_count_documents coll = Inr n' \<and> db_collstats coll = Inr cs' \<and>
         db_find coll = Inr cursor \<and>
         st\<lparr>field_count := None, field_coverage := None, field_types := None,
            value_distributions := None, distinct_counts := None\<rparr> = basic_stats n' cs'"
    by (auto simp: get_detailed_collection_stats_def field_analysis_def basic_stats_def Let_def
        split: sum.splits if_splits)
qed (simp_all add: get_detailed_collection_stats_def show_stats_def)

theorem backend_errors_propagate_witness:
  "get_detailed_collection_stats
     ((example_store scenario_docs)\<lparr>db_count_documents := Inl (BackendError ''timed out'')\<rparr>)
     = Inl (BackendError ''timed out'') \<and>
   show_stats
     ((example_store scenario_docs)\<lparr>db_count_documents := Inl (BackendError ''timed out'')\<rparr>)
     = Inl ''Error: timed out'' \<and>
   get_detailed_collection_stats
     ((example_store scenario_docs)\<lparr>db_collstats := Inl (BackendError ''not authorized'')\<rparr>)
     = Inl (BackendError ''not authorized'') \<and>
   get_detailed_collection_stats
     ((example_store scenario_docs)\<lparr>db_find := Inl (BackendError ''connection reset'')\<rparr>)
     = Inl (BackendError ''connection reset'') \<and>
   (\<exists>st. get_detailed_collection_stats (example_store scenario_docs) = Inr st \<and>
      db_count_documents (example_store scenario_docs) = Inr (doc_count st) \<and> doc_count st = 3)"
proof -
  let ?c1 = "(example_store scenario_docs)\<lparr>db_count_documents := Inl (BackendError ''timed out'')\<rparr>"
  let ?c2 = "(example_store scenario_docs)\<lparr>db_collstats := Inl (BackendError ''not authorized'')\<rparr>"
  let ?c3 = "(example_store scenario_docs)\<lparr>db_find := Inl (BackendError ''connection reset'')\<rparr>"
  have a: "get_detailed_collection_stats ?c1 = Inl (BackendError ''timed out'') \<and>
      show_stats ?c1 = Inl ''Error: timed out''"
    using backend_errors_propagate[of ?c1 "BackendError ''timed out''"] by simp
  have b: "get_detailed_collection_stats ?c2 = Inl (BackendError ''not authorized'')"
    using backend_errors_propagate[of ?c2 "BackendError ''not authorized''" 3]
    by (simp add: example_store_def scenario_docs_def)
  have c: "get_detailed_collection_stats ?c3 = Inl (BackendError ''connection reset'')"
    using backend_errors_propagate[of ?c3 "BackendError ''connection reset''" 3
        "\<lparr>cs_size = None, cs_avgObjSize = None, cs_storageSize = None,
          cs_totalIndexSize = None, cs_indexSizes = None\<rparr>"]
    by (simp add: example_store_def scenario_docs_def)
  obtain st where st: "get_detailed_collection_stats (example_store scenario_docs) = Inr st"
    using example_store_returns by blast
  from backend_errors_propagate[of "example_store scenario_docs" _ _ _ st] st
  have "db_count_documents (example_store scenario_docs) = Inr (doc_count st)"
    by (auto simp: basic_stats_def example_store_def dest!: arg_cong[where f = doc_count])
  moreover from this have "doc_count st = 3"
    by (simp add: example_store_def scenario_docs_def)
  ultimately show ?thesis using a b c st by blast
qed

section \<open>The empty collection\<close>

text \<open>
  Claim C4. When the collection is empty, that is the count is 0 and the sample fetch
  returns no records (and \<open>collstats\<close> answers), the function raises nothing and
  returns a report: its document count is 0, the field count read from it is 0, and no
  field has an entry in any of the four per-field mappings. In the \<open>stats\<close> dict the
  field count and the four mappings are keys that are not set; the page reads the field
  count with \<^verbatim>\<open>stats.get('field_count', 0)\<close> and each mapping under
  \<^verbatim>\<open>if key in stats\<close>, which is what \<open>shown_field_count\<close> and \<open>entry\<close> are.
\<close>

theorem empty_collection_report:
  assumes "db_count_documents coll = Inr 0" "db_collstats coll = Inr cs" "db_find coll = Inr []"
  shows "get_detailed_collection_stats coll = Inr (basic_stats 0 cs) \<and>
         show_stats coll = Inr (basic_stats 0 cs) \<and>
         doc_count (basic_stats 0 cs) = 0 \<and>
         shown_field_count (basic_stats 0 cs) = 0 \<and>
         (\<forall>field. entry (field_coverage (basic_stats 0 cs)) field = None \<and>
                  entry (field_types (basic_stats 0 cs)) field = None \<and>
                  entry (value_distributions (basic_stats 0 cs)) field = None \<and>
                  entry (distinct_counts (basic_stats 0 cs)) field = None) \<and>
         field_count (basic_stats 0 cs) = None \<and>
         field_coverage (basic_stats 0 cs) = None \<and>
         field_types (basic_stats 0 cs) = None \<and>
         value_distributions (basic_stats 0 cs) = None \<and>
         distinct_counts (basic_stats 0 cs) = None"
  using assms
  by (simp add: get_detailed_collection_stats_def show_stats_def basic_stats_def
      shown_field_count_def get_or_0_def entry_def)

theorem empty_collection_report_witness:
  "db_count_documents (example_store []) = Inr 0 \<and>
   db_find (example_store []) = Inr [] \<and>
   (\<exists>st. get_detailed_collection_stats (example_store []) = Inr st \<and>
      show_stats (example_store []) = Inr st \<and>
      doc_count st = 0 \<and> shown_field_count st = 0 \<and>
      entry (field_coverage st) ''a'' = None \<and> entry (field_types st) ''a'' = None \<and>
      entry (value_distributions st) ''a'' = None \<and> entry (distinct_counts st) ''a'' = None)"
proof -
  let ?cs = "\<lparr>cs_size = None, cs_avgObjSize = None, cs_storageSize = None,
        cs_totalIndexSize = None, cs_indexSizes = None\<rparr>"
  have a: "db_count_documents (example_store []) = Inr 0"
    by (simp add: example_store_def)
  have b: "db_collstats (example_store []) = Inr ?cs"
    by (simp add: example_store_def)
  have c: "db_find (example_store []) = Inr []"
    by (simp add: example_store_def)
  from empty_collection_report[OF a b c] a c show ?thesis by blast
qed

section \<open>The field count\<close>

text \<open>
  What the function stores as field count is \<open>len(all_fields)\<close>, taken before any of
  its \<open>_id\<close> guards: the number of distinct field names of the sample with \<open>_id\<close>
  among them, one more than the number of the other names whenever a sampled record
  carries \<open>_id\<close>.
\<close>

lemma field_count_of_sample:
  assumes "get_detailed_collection_stats coll = Inr st" "db_find coll = Inr cursor"
    "take 100 cursor \<noteq> []"
  shows "field_count st = Some (card {f. \<exists>d\<in>set (take 100 cursor). map_of d f \<noteq> None}) \<and>
         card {f. \<exists>d\<in>set (take 100 cursor). map_of d f \<noteq> None} =
           card {f. f \<noteq> ''_id'' \<and> (\<exists>d\<in>set (take 100 cursor). map_of d f \<noteq> None)} +
           (if \<exists>d\<in>set (take 100 cursor). map_of d ''_id'' \<noteq> None then 1 else 0)"
proof -
  let ?docs = "take 100 cursor"
  let ?K = "{f. \<exists>d\<in>set ?docs. map_of d f \<noteq> None}"
  from stats_returned_only[OF assms(1)] assms(2) obtain n cs where
    calls: "db_count_documents coll = Inr n" "db_collstats coll = Inr cs" by auto
  from stats_returned[OF calls assms(2)] assms(1,3)
  have "field_count st = Some (length (all_fields ?docs))" by auto
  moreover have "length (all_fields ?docs) = card ?K"
    using all_fields_distinct[of ?docs] all_fields_set[of ?docs] by (metis distinct_card)
  ultimately have count: "field_count st = Some (card ?K)" by simp
  have fin: "finite ?K" using all_fields_set[of ?docs] by (metis List.finite_set)
  have split: "{f. f \<noteq> ''_id'' \<and> (\<exists>d\<in>set ?docs. map_of d f \<noteq> None)} = ?K - {''_id''}"
    by auto
  have "card ?K = card (?K - {''_id''}) + (if ''_id'' \<in> ?K then 1 else 0)"
  proof (cases "''_id'' \<in> ?K")
    case True
    from card.remove[OF fin True] True show ?thesis by simp
  next
    case False
    then have "?K - {''_id''} = ?K" by blast
    with False show ?thesis by simp
  qed
  then have "card ?K =
      card {f. f \<noteq> ''_id'' \<and> (\<exists>d\<in>set ?docs. map_of d f \<noteq> None)} +
      (if \<exists>d\<in>set ?docs. map_of d ''_id'' \<noteq> None then 1 else 0)"
    unfolding split by simp
  with count show ?thesis by blast
qed

text \<open>
  Claim C3: the field count is the number of distinct field names other than \<open>_id\<close>, 3
  for the scenario. The code does not do this. The three records of the scenario have the
  key sets \<open>{_id, a, b}\<close>, \<open>{_id, a}\<close> and \<open>{_id, a, b, c}\<close>: the report holds the
  field count 4 and the page shows 4, while the names other than \<open>_id\<close> are three. The
  Fields metric of \<open>mongo.py\<close> leaves \<open>_id\<close> out (2 for the first record of the
  scenario), as do the three guarded loops of the function itself.
\<close>

theorem field_count_counts_id:
  "case get_detailed_collection_stats (example_store scenario_docs) of
     Inl e \<Rightarrow> False
   | Inr st \<Rightarrow> field_count st = Some 4 \<and> shown_field_count st = 4 \<and>
       length (filter (\<lambda>f. f \<noteq> ''_id'') (all_fields (take 100 scenario_docs))) = 3 \<and>
       fields_metric [(''_id'', VInt 1), (''a'', VInt 1), (''b'', VStr ''x'')] = 2"
proof -
  obtain st where st: "get_detailed_collection_stats (example_store scenario_docs) = Inr st"
    using example_store_returns by blast
  have calls: "db_count_documents (example_store scenario_docs) = Inr 3"
    "db_collstats (example_store scenario_docs) =
       Inr \<lparr>cs_size = None, cs_avgObjSize = None, cs_storageSize = None,
            cs_totalIndexSize = None, cs_indexSizes = None\<rparr>"
    "db_find (example_store scenario_docs) = Inr scenario_docs"
    by (simp_all add: example_store_def scenario_docs_def)
  have ne: "take 100 scenario_docs \<noteq> []" by (simp add: scenario_docs_def)
  from stats_returned[OF calls] st ne
  have "field_count st = Some (length (all_fields (take 100 scenario_docs)))" by auto
  moreover have "length (all_fields (take 100 scenario_docs)) = 4"
    by (simp add: all_fields_def scenario_docs_def)
  ultimately have four: "field_count st = Some 4" by simp
  then have shown: "shown_field_count st = 4"
    by (simp add: shown_field_count_def get_or_0_def)
  have three: "length (filter (\<lambda>f. f \<noteq> ''_id'') (all_fields (take 100 scenario_docs))) = 3"
    by (simp add: all_fields_def scenario_docs_def)
  have sibling: "fields_metric [(''_id'', VInt 1), (''a'', VInt 1), (''b'', VStr ''x'')] = 2"
    by (simp add: fields_metric_def)
  from st four shown three sibling show ?thesis by simp
qed

section \<open>The field \<open>_id\<close>\<close>

text \<open>
  Claim C2, as amended. \<open>_id\<close> is never a key of the coverage dict, of the value
  distributions or of the distinct counts. The loop that builds the type histogram has no
  such guard: \<open>_id\<close> is a key of \<open>field_types\<close> exactly when a sampled record
  carries it.
\<close>

theorem id_only_in_type_histogram:
  assumes "get_detailed_collection_stats coll = Inr st" "db_find coll = Inr cursor"
  shows "entry (field_coverage st) ''_id'' = None \<and>
         entry (value_distributions st) ''_id'' = None \<and>
         entry (distinct_counts st) ''_id'' = None \<and>
         (entry (field_types st) ''_id'' \<noteq> None \<longleftrightarrow>
            (\<exists>d\<in>set (take 100 cursor). map_of d ''_id'' \<noteq> None))"
  using report_entries[OF assms, of "''_id''"]
  by (simp add: all_fields_set)

theorem id_only_in_type_histogram_witness:
  "\<exists>st. get_detailed_collection_stats (example_store scenario_docs) = Inr st \<and>
     db_find (example_store scenario_docs) = Inr scenario_docs \<and>
     entry (field_coverage st) ''_id'' = None \<and>
     entry (value_distributions st) ''_id'' = None \<and>
     entry (distinct_counts st) ''_id'' = None \<and>
     entry (field_types st) ''_id'' \<noteq> None"
proof -
  obtain st where st: "get_detailed_collection_stats (example_store scenario_docs) = Inr st"
    using example_store_returns by blast
  have f: "db_find (example_store scenario_docs) = Inr scenario_docs"
    by (simp add: example_store_def)
  have "\<exists>d\<in>set (take 100 scenario_docs). map_of d ''_id'' \<noteq> None"
    by (simp add: scenario_docs_def)
  with id_only_in_type_histogram[OF st f] st f show ?thesis by blast
qed

text \<open>In the scenario the type histogram has an entry for \<open>_id\<close>.\<close>

theorem id_in_type_histogram_counterexample:
  "case get_detailed_collection_stats (example_store scenario_docs) of
     Inl e \<Rightarrow> False
   | Inr st \<Rightarrow> entry (field_types st) ''_id'' = Some [(''int'', 3)]"
proof -
  obtain st where st: "get_detailed_collection_stats (example_store scenario_docs) = Inr st"
    using example_store_returns by blast
  have f: "db_find (example_store scenario_docs) = Inr scenario_docs"
    by (simp add: example_store_def)
  have "entry (field_types st) ''_id'' = Some [(''int'', 3)]"
    unfolding report_entries(2)[OF st f]
    by (simp add: all_fields_def type_counts_def scenario_docs_def)
  with st show ?thesis by simp
qed

section \<open>Fields with composite values\<close>

text \<open>
  Claim C1, as amended. For a field other than \<open>_id\<close> that occurs in the sample, the
  value distribution is computed exactly when the first sampled value of the field is
  scalar: the guard looks at \<^verbatim>\<open>field_values[0]\<close> only, and the later values, composite
  or not, are all turned into strings and counted. The distinct count leaves out the
  composite values one by one: it is the number of different scalar values of the field,
  and it is 0 exactly when every sampled value of the field is composite.
\<close>

theorem table_guard_is_first_value:
  assumes "get_detailed_collection_stats coll = Inr st" "db_find coll = Inr cursor"
    "field \<noteq> ''_id''" "field_values field (take 100 cursor) = v0 # rest"
  shows "entry (value_distributions st) field =
           (if is_composite v0 then None
            else Some (take 10 (sorted_desc (value_counts (v0 # rest))))) \<and>
         entry (distinct_counts st) field =
           Some (card (py_key ` {v \<in> set (v0 # rest). \<not> is_composite v})) \<and>
         (entry (distinct_counts st) field = Some 0 \<longleftrightarrow>
            (\<forall>v\<in>set (v0 # rest). is_composite v))"
proof -
  have inf: "field \<in> set (all_fields (take 100 cursor))"
    using field_values_nonempty[of field "take 100 cursor"] assms(4) by simp
  have tab: "entry (value_distributions st) field =
           (if is_composite v0 then None
            else Some (take 10 (sorted_desc (value_counts (v0 # rest)))))"
    unfolding report_entries(3)[OF assms(1,2)] using inf assms(3,4)
    by (simp add: field_distribution_def)
  have dc: "entry (distinct_counts st) field =
      Some (length (py_set (filter (\<lambda>v. \<not> is_composite v) (v0 # rest))))"
    unfolding report_entries(4)[OF assms(1,2)] using inf assms(3,4) by simp
  have len: "length (py_set (filter (\<lambda>v. \<not> is_composite v) (v0 # rest))) =
      card (py_key ` {v \<in> set (v0 # rest). \<not> is_composite v})"
    unfolding py_set_length by (rule arg_cong[where f = "\<lambda>S. card (py_key ` S)"]) auto
  have zero: "length (py_set (filter (\<lambda>v. \<not> is_composite v) (v0 # rest))) = 0 \<longleftrightarrow>
      (\<forall>v\<in>set (v0 # rest). is_composite v)"
    unfolding py_set_empty_iff by (simp only: filter_empty_conv) blast
  from tab dc len zero show ?thesis by (simp only: option.inject) 
qed

theorem table_guard_is_first_value_witness:
  "\<exists>st. get_detailed_collection_stats (example_store mixed_docs) = Inr st \<and>
     db_find (example_store mixed_docs) = Inr mixed_docs \<and>
     field_values ''f'' (take 100 mixed_docs) = [VStr ''x'', VDict []] \<and>
     entry (value_distributions st) ''f'' \<noteq> None \<and>
     entry (distinct_counts st) ''f'' \<noteq> Some 0"
proof -
  obtain st where st: "get_detailed_collection_stats (example_store mixed_docs) = Inr st"
    using example_store_returns by blast
  have f: "db_find (example_store mixed_docs) = Inr mixed_docs"
    by (simp add: example_store_def)
  have vals: "field_values ''f'' (take 100 mixed_docs) = [VStr ''x'', VDict []]"
    by (simp add: field_values_def List.map_filter_def mixed_docs_def)
  from table_guard_is_first_value[OF st f _ vals] st f vals show ?thesis by auto
qed

text \<open>
  A field that is a string in the first record and a nested mapping in the second has a
  frequency table, in which the mapping is counted under its string form, and the distinct
  count 1.
\<close>

theorem mixed_field_counterexample:
  "case get_detailed_collection_stats (example_store mixed_docs) of
     Inl e \<Rightarrow> False
   | Inr st \<Rightarrow> entry (value_distributions st) ''f'' = Some [(''x'', 1), (''{}'', 1)] \<and>
       entry (distinct_counts st) ''f'' = Some 1"
proof -
  obtain st where st: "get_detailed_collection_stats (example_store mixed_docs) = Inr st"
    using example_store_returns by blast
  have f: "db_find (example_store mixed_docs) = Inr mixed_docs"
    by (simp add: example_store_def)
  have "entry (value_distributions st) ''f'' = Some [(''x'', 1), (''{}'', 1)]"
    unfolding report_entries(3)[OF st f]
    by (simp add: all_fields_def field_values_def List.map_filter_def mixed_docs_def
        field_distribution_def value_counts_def sorted_desc_def)
  moreover have "entry (distinct_counts st) ''f'' = Some 1"
    unfolding report_entries(4)[OF st f]
    by (simp add: all_fields_def field_values_def List.map_filter_def mixed_docs_def
        py_set_def set_add_def)
  ultimately show ?thesis using st by simp
qed

section \<open>Coverage\<close>

lemma pct_bounds:
  assumes "k \<le> n" "0 < n"
  shows "0 \<le> (of_nat k :: rat) / of_nat n * 100 \<and> (of_nat k :: rat) / of_nat n * 100 \<le> 100"
proof -
  have "(of_nat k :: rat) / of_nat n \<le> 1" using assms by (simp add: divide_le_eq_1)
  moreover have "0 \<le> (of_nat k :: rat) / of_nat n" by simp
  moreover have "0 \<le> q \<Longrightarrow> q \<le> 1 \<Longrightarrow> 0 \<le> q * 100 \<and> q * 100 \<le> 100" for q :: rat
    by simp
  ultimately show ?thesis by blast
qed

text \<open>
  Claim C6. Whenever the three calls return, so does the function: the division by the
  sample size is only reached for a sample that is not empty. Every coverage entry of the
  report has \<open>coverage_pct = count / len(sample) * 100\<close> with \<open>count\<close> the number of
  sampled records that hold the field, so the percentage is between 0 and 100 and the count
  is at most the sample size. For an empty sample no field has a coverage entry, hence none
  has a coverage other than 0.
\<close>

theorem coverage_in_range:
  assumes "db_count_documents coll = Inr n" "db_collstats coll = Inr cs"
    "db_find coll = Inr cursor"
  shows "\<exists>st. get_detailed_collection_stats coll = Inr st \<and>
           (\<forall>field c. entry (field_coverage st) field = Some c \<longrightarrow>
              take 100 cursor \<noteq> [] \<and>
              count c = presence field (take 100 cursor) \<and>
              coverage_pct c = of_nat (count c) / of_nat (length (take 100 cursor)) * 100 \<and>
              0 \<le> coverage_pct c \<and> coverage_pct c \<le> 100 \<and>
              count c \<le> length (take 100 cursor)) \<and>
           (take 100 cursor = [] \<longrightarrow> (\<forall>field. entry (field_coverage st) field = None))"
proof -
  let ?docs = "take 100 cursor"
  from stats_returned[OF assms] obtain st where
    st: "get_detailed_collection_stats coll = Inr st" by blast
  have none: "entry (field_coverage st) field = None" if "?docs = []" for field
    unfolding report_entries(1)[OF st assms(3)] using that by (simp add: all_fields_def)
  have some: "?docs \<noteq> [] \<and>
              count c = presence field ?docs \<and>
              coverage_pct c = of_nat (count c) / of_nat (length ?docs) * 100 \<and>
              0 \<le> coverage_pct c \<and> coverage_pct c \<le> 100 \<and>
              count c \<le> length ?docs"
    if c: "entry (field_coverage st) field = Some c" for field c
  proof -
    from c none have ne: "?docs \<noteq> []" by fastforce
    from c have ceq: "c = \<lparr>count = presence field ?docs,
        coverage_pct = of_nat (presence field ?docs) / of_nat (length ?docs) * 100\<rparr>"
      unfolding report_entries(1)[OF st assms(3)] by (simp split: if_splits)
    have le: "presence field ?docs \<le> length ?docs" by (rule presence_le)
    have pos: "0 < length ?docs" using ne by simp
    from pct_bounds[OF le pos] ne ceq le show ?thesis by simp
  qed
  from st none some show ?thesis by blast
qed

theorem coverage_in_range_witness:
  "db_find (example_store scenario_docs) = Inr scenario_docs \<and>
   (\<exists>st. get_detailed_collection_stats (example_store scenario_docs) = Inr st \<and>
      entry (field_coverage st) ''b'' = Some \<lparr>count = 2, coverage_pct = 200 / 3\<rparr> \<and>
      (0::rat) \<le> 200 / 3 \<and> (200::rat) / 3 \<le> 100) \<and>
   (\<exists>st. get_detailed_collection_stats (example_store []) = Inr st \<and>
      entry (field_coverage st) ''b'' = None)"
proof -
  let ?cs = "\<lparr>cs_size = None, cs_avgObjSize = None, cs_storageSize = None,
            cs_totalIndexSize = None, cs_indexSizes = None\<rparr>"
  have f: "db_find (example_store scenario_docs) = Inr scenario_docs"
    by (simp add: example_store_def)
  from coverage_in_range[of "example_store scenario_docs" 3 ?cs scenario_docs]
  obtain st where st: "get_detailed_collection_stats (example_store scenario_docs) = Inr st"
    by (auto simp: example_store_def scenario_docs_def)
  have b: "entry (field_coverage st) ''b'' = Some \<lparr>count = 2, coverage_pct = 200 / 3\<rparr>"
    unfolding report_entries(1)[OF st f]
    by (simp add: all_fields_def presence_def scenario_docs_def)
  from coverage_in_range[of "example_store []" 0 ?cs "[]"]
  obtain st0 where st0: "get_detailed_collection_stats (example_store []) = Inr st0"
    "entry (field_coverage st0) ''b'' = None"
    by (auto simp: example_store_def)
  from f st b st0 show ?thesis by auto
qed

section \<open>The value distribution of a field\<close>

lemma tally_fold_set: "set (foldl tally [] ks) = (\<lambda>s. (s, count_list ks s)) ` set ks"
proof (intro set_eqI iffI)
  fix x assume "x \<in> set (foldl tally [] ks)"
  then have "(fst x, snd x) \<in> set (foldl tally [] ks)" by simp
  from tally_fold_entry[OF this] show "x \<in> (\<lambda>s. (s, count_list ks s)) ` set ks"
    by (metis (mono_tags, lifting) image_eqI prod.collapse)
next
  fix x assume "x \<in> (\<lambda>s. (s, count_list ks s)) ` set ks"
  then obtain s where s: "s \<in> set ks" "x = (s, count_list ks s)" by blast
  then have "map_of (foldl tally [] ks) s = Some (count_list ks s)"
    by (simp add: tally_fold_map_of)
  with s show "x \<in> set (foldl tally [] ks)" by (simp add: map_of_SomeD)
qed

text \<open>
  The table of a field, from the string forms of its sampled values: what the loop over the
  values, the sort and the slice \<^verbatim>\<open>[:10]\<close> compute.
\<close>

lemma table_of_field:
  assumes "get_detailed_collection_stats coll = Inr st" "db_find coll = Inr cursor"
    "entry (value_distributions st) field = Some table"
  shows "\<exists>full.
           table = take 10 full \<and>
           set full = (\<lambda>s. (s, count_list (map py_str (field_values field (take 100 cursor))) s))
                        ` set (map py_str (field_values field (take 100 cursor))) \<and>
           distinct (map fst full) \<and>
           length full = card (set (map py_str (field_values field (take 100 cursor)))) \<and>
           length table = min 10 (card (set (map py_str (field_values field (take 100 cursor))))) \<and>
           sorted_wrt (\<lambda>x y. snd y \<le> snd x) full \<and>
           sorted_wrt (\<lambda>x y. snd x = snd y \<longrightarrow>
               first_seen (fst x) (map py_str (field_values field (take 100 cursor)))
                 < first_seen (fst y) (map py_str (field_values field (take 100 cursor)))) full \<and>
           sorted_wrt (\<lambda>x y. snd y \<le> snd x) table \<and>
           sorted_wrt (\<lambda>x y. snd x = snd y \<longrightarrow>
               first_seen (fst x) (map py_str (field_values field (take 100 cursor)))
                 < first_seen (fst y) (map py_str (field_values field (take 100 cursor)))) table"
proof -
  let ?vals = "field_values field (take 100 cursor)"
  let ?strs = "map py_str ?vals"
  let ?vc = "foldl tally [] ?strs"
  let ?full = "sorted_desc ?vc"
  let ?R = "\<lambda>x y. first_seen (fst x) ?strs < first_seen (fst y) ?strs"
  from assms(3) have "field_distribution ?vals = Some table"
    unfolding report_entries(3)[OF assms(1,2)] by (simp split: if_splits)
  then have table: "table = take 10 ?full"
    by (auto simp: field_distribution_def value_counts_tally split: list.splits if_splits)
  have keys: "distinct (map fst ?vc)" "set (map fst ?vc) = set ?strs"
    "sorted_wrt (\<lambda>a b. first_seen a ?strs < first_seen b ?strs) (map fst ?vc)"
    using tally_fold_keys[of ?strs] by simp_all
  have set_vc: "set ?vc = (\<lambda>s. (s, count_list ?strs s)) ` set ?strs"
    by (rule tally_fold_set)
  have full_set: "set ?full = (\<lambda>s. (s, count_list ?strs s)) ` set ?strs"
    by (simp only: sorted_desc_set set_vc)
  have "card (set (map fst ?full)) = card (set (map fst ?vc))"
    by (simp only: set_map sorted_desc_set)
  also have "\<dots> = length (map fst ?vc)" using keys(1) by (rule distinct_card)
  also have "\<dots> = length (map fst ?full)" by (simp only: length_map sorted_desc_length)
  finally have full_dist: "distinct (map fst ?full)" by (rule card_distinct)
  have full_len: "length ?full = card (set ?strs)"
    by (simp only: sorted_desc_length tally_fold_length)
  have ordR: "sorted_wrt ?R ?vc"
    using keys(3) by (simp add: sorted_wrt_map)
  have desc: "sorted_wrt (\<lambda>x y. snd y \<le> snd x) ?full" by (rule sorted_desc_descending)
  have ties: "sorted_wrt (\<lambda>x y. snd x = snd y \<longrightarrow> ?R x y) ?full"
    using ordR by (rule sorted_desc_ties)
  have len: "length table = min 10 (card (set ?strs))"
    unfolding table by (simp add: full_len min.commute)
  have desc': "sorted_wrt (\<lambda>x y. snd y \<le> snd x) table"
    unfolding table using desc by (rule sorted_wrt_take)
  have ties': "sorted_wrt (\<lambda>x y. snd x = snd y \<longrightarrow> ?R x y) table"
    unfolding table using ties by (rule sorted_wrt_take)
  from table full_set full_dist full_len len desc ties desc' ties'
  show ?thesis by blast
qed

text \<open>
  Claim C7. Each sampled value is counted under \<open>str(v)\<close>: a string under itself, without
  quotes, and an integer, a boolean or \<open>None\<close> under the same string as the text that
  spells it, so 1 and "1" fall into one bucket. Let \<open>strs\<close> be the string forms of the
  sampled values of a field that has a value distribution. The table is the first ten
  entries of a list \<open>full\<close> that holds, for each distinct string form and once only, the
  pair of that string and the number of sampled values with that string form; \<open>full\<close>
  is in descending order of count, and entries with equal counts stand in the order in
  which their strings were first met. Hence the table has
  \<open>min(10, number of distinct string forms)\<close> entries, in that same order. For the
  sampled values "x", 1, "1", True, "True", None, "1" the table is
  \<open>[("1", 3), ("True", 2), ("x", 1), ("None", 1)]\<close>.
\<close>

theorem frequency_table_top_ten:
  "(get_detailed_collection_stats coll = Inr st \<and> db_find coll = Inr cursor \<and>
      entry (value_distributions st) field = Some table \<longrightarrow>
      (\<exists>full.
           table = take 10 full \<and>
           set full = (\<lambda>s. (s, count_list (map py_str (field_values field (take 100 cursor))) s))
                        ` set (map py_str (field_values field (take 100 cursor))) \<and>
           distinct (map fst full) \<and>
           length full = card (set (map py_str (field_values field (take 100 cursor)))) \<and>
           length table = min 10 (card (set (map py_str (field_values field (take 100 cursor))))) \<and>
           sorted_wrt (\<lambda>x y. snd y \<le> snd x) full \<and>
           sorted_wrt (\<lambda>x y. snd x = snd y \<longrightarrow>
               first_seen (fst x) (map py_str (field_values field (take 100 cursor)))
                 < first_seen (fst y) (map py_str (field_values field (take 100 cursor)))) full \<and>
           sorted_wrt (\<lambda>x y. snd y \<le> snd x) table \<and>
           sorted_wrt (\<lambda>x y. snd x = snd y \<longrightarrow>
               first_seen (fst x) (map py_str (field_values field (take 100 cursor)))
                 < first_seen (fst y) (map py_str (field_values field (take 100 cursor)))) table)) \<and>
   py_str (VStr s) = s \<and>
   py_str (VInt i) = py_str (VStr (str_int i)) \<and>
   py_str (VInt 1) = ''1'' \<and>
   py_str (VBool True) = py_str (VStr ''True'') \<and>
   py_str (VBool False) = py_str (VStr ''False'') \<and>
   py_str VNone = py_str (VStr ''None'') \<and>
   (case get_detailed_collection_stats (example_store merged_docs) of
      Inl e \<Rightarrow> False
    | Inr st1 \<Rightarrow> entry (value_distributions st1) ''v'' =
        Some [(''1'', 3), (''True'', 2), (''x'', 1), (''None'', 1)])"
proof -
  obtain st1 where st1: "get_detailed_collection_stats (example_store merged_docs) = Inr st1"
    using example_store_returns by blast
  have f: "db_find (example_store merged_docs) = Inr merged_docs"
    by (simp add: example_store_def)
  have "entry (value_distributions st1) ''v'' =
      Some [(''1'', 3), (''True'', 2), (''x'', 1), (''None'', 1)]"
    unfolding report_entries(3)[OF st1 f]
    by (simp add: all_fields_def field_values_def List.map_filter_def merged_docs_def
        field_distribution_def value_counts_def sorted_desc_def
        str_int_def str_nat.simps digit_char_def)
  with st1 have ex: "case get_detailed_collection_stats (example_store merged_docs) of
      Inl e \<Rightarrow> False
    | Inr st1 \<Rightarrow> entry (value_distributions st1) ''v'' =
        Some [(''1'', 3), (''True'', 2), (''x'', 1), (''None'', 1)]"
    by simp
  have one: "py_str (VInt 1) = ''1''"
    by (simp add: str_int_def str_nat.simps digit_char_def)
  show ?thesis
    using table_of_field[of coll st cursor field table] ex one by simp
qed

theorem frequency_table_top_ten_witness:
  "\<exists>st. get_detailed_collection_stats (example_store merged_docs) = Inr st \<and>
     db_find (example_store merged_docs) = Inr merged_docs \<and>
     field_values ''v'' (take 100 merged_docs) =
       [VStr ''x'', VInt 1, VStr ''1'', VBool True, VStr ''True'', VNone, VStr ''1''] \<and>
     map py_str (field_values ''v'' (take 100 merged_docs)) =
       [''x'', ''1'', ''1'', ''True'', ''True'', ''None'', ''1''] \<and>
     entry (value_distributions st) ''v'' =
       Some [(''1'', 3), (''True'', 2), (''x'', 1), (''None'', 1)] \<and>
     length [(''1'', 3 :: nat), (''True'', 2), (''x'', 1), (''None'', 1)] =
       min 10 (card (set (map py_str (field_values ''v'' (take 100 merged_docs))))) \<and>
     sorted_wrt (\<lambda>x y. snd y \<le> snd x) [(''1'', 3 :: nat), (''True'', 2), (''x'', 1), (''None'', 1)] \<and>
     sorted_wrt (\<lambda>x y. snd x = snd y \<longrightarrow>
         first_seen (fst x) (map py_str (field_values ''v'' (take 100 merged_docs)))
           < first_seen (fst y) (map py_str (field_values ''v'' (take 100 merged_docs))))
       [(''1'', 3 :: nat), (''True'', 2), (''x'', 1), (''None'', 1)]"
proof -
  let ?table = "[(''1'', 3 :: nat), (''True'', 2), (''x'', 1), (''None'', 1)]"
  let ?strs = "map py_str (field_values ''v'' (take 100 merged_docs))"
  obtain st where st: "get_detailed_collection_stats (example_store merged_docs) = Inr st"
    using example_store_returns by blast
  have f: "db_find (example_store merged_docs) = Inr merged_docs"
    by (simp add: example_store_def)
  have vals: "field_values ''v'' (take 100 merged_docs) =
       [VStr ''x'', VInt 1, VStr ''1'', VBool True, VStr ''True'', VNone, VStr ''1'']"
    by (simp add: field_values_def List.map_filter_def merged_docs_def)
  have strs: "?strs = [''x'', ''1'', ''1'', ''True'', ''True'', ''None'', ''1'']"
    unfolding vals by (simp add: str_int_def str_nat.simps digit_char_def)
  have a: "entry (value_distributions st) ''v'' = Some ?table"
    unfolding report_entries(3)[OF st f]
    by (simp add: all_fields_def field_values_def List.map_filter_def merged_docs_def
        field_distribution_def value_counts_def sorted_desc_def
        str_int_def str_nat.simps digit_char_def)
  from frequency_table_top_ten[of "example_store merged_docs" st merged_docs "''v''" ?table]
    st f a
  have "\<exists>full. ?table = take 10 full \<and>
           set full = (\<lambda>s. (s, count_list ?strs s)) ` set ?strs \<and>
           distinct (map fst full) \<and>
           length full = card (set ?strs) \<and>
           length ?table = min 10 (card (set ?strs)) \<and>
           sorted_wrt (\<lambda>x y. snd y \<le> snd x) full \<and>
           sorted_wrt (\<lambda>x y. snd x = snd y \<longrightarrow>
               first_seen (fst x) ?strs < first_seen (fst y) ?strs) full \<and>
           sorted_wrt (\<lambda>x y. snd y \<le> snd x) ?table \<and>
           sorted_wrt (\<lambda>x y. snd x = snd y \<longrightarrow>
               first_seen (fst x) ?strs < first_seen (fst y) ?strs) ?table"
    by blast
  then obtain full where
    full: "?table = take 10 full \<and>
           set full = (\<lambda>s. (s, count_list ?strs s)) ` set ?strs \<and>
           distinct (map fst full) \<and>
           length full = card (set ?strs) \<and>
           length ?table = min 10 (card (set ?strs)) \<and>
           sorted_wrt (\<lambda>x y. snd y \<le> snd x) full \<and>
           sorted_wrt (\<lambda>x y. snd x = snd y \<longrightarrow>
               first_seen (fst x) ?strs < first_seen (fst y) ?strs) full \<and>
           sorted_wrt (\<lambda>x y. snd y \<le> snd x) ?table \<and>
           sorted_wrt (\<lambda>x y. snd x = snd y \<longrightarrow>
               first_seen (fst x) ?strs < first_seen (fst y) ?strs) ?table" ..
  from full have len: "length ?table = min 10 (card (set ?strs))"
    by (elim conjE)
  from full have desc: "sorted_wrt (\<lambda>x y. snd y \<le> snd x) ?table"
    by (elim conjE)
  from full have ties: "sorted_wrt (\<lambda>x y. snd x = snd y \<longrightarrow>
               first_seen (fst x) ?strs < first_seen (fst y) ?strs) ?table"
    by (elim conjE)
  show ?thesis
    by (intro exI[of _ st] conjI) (fact st f vals strs a len desc ties)+
qed

section \<open>The type histogram\<close>



section \<open>The exact analysis\<close>

text \<open>
  Claim C8. When the three calls return, the exact analysis of a field gives the count of
  the records in which the field exists as the collaborator counts them, the coverage
  \<open>count / total * 100\<close> (0 for a collection of 0 records), and the length of the
  collaborator's \<open>distinct\<close> result. The sample fetch and the collection statistics
  play no part in it.
\<close>

theorem analyze_field_exact:
  assumes "db_count_documents coll = Inr n" "db_count_exists coll field = Inr k"
    "db_distinct coll field = Inr vals"
  shows "analyze_field coll field =
           Inr \<lparr>coverage = (if n = 0 then 0 else of_nat k / of_nat n * 100),
                fr_field_count = k, unique_values = length vals\<rparr> \<and>
         analyze_field (coll\<lparr>db_find := sample, db_collstats := cs\<rparr>) field =
           analyze_field coll field"
  using assms by (simp add: analyze_field_def)

theorem analyze_field_exact_witness:
  "db_count_documents (example_store scenario_docs) = Inr 3 \<and>
   db_count_exists (example_store scenario_docs) ''b'' = Inr 2 \<and>
   db_distinct (example_store scenario_docs) ''b'' = Inr [VStr ''x'', VStr ''y''] \<and>
   analyze_field (example_store scenario_docs) ''b'' =
     Inr \<lparr>coverage = 200 / 3, fr_field_count = 2, unique_values = 2\<rparr> \<and>
   analyze_field ((example_store scenario_docs)\<lparr>db_find := Inr [], db_collstats := Inl ZeroDivisionError\<rparr>) ''b'' =
     analyze_field (example_store scenario_docs) ''b''"
proof -
  have a: "db_count_documents (example_store scenario_docs) = Inr 3"
    by (simp add: example_store_def scenario_docs_def)
  have b: "db_count_exists (example_store scenario_docs) ''b'' = Inr 2"
    by (simp add: example_store_def scenario_docs_def presence_def)
  have c: "db_distinct (example_store scenario_docs) ''b'' = Inr [VStr ''x'', VStr ''y'']"
    by (simp add: example_store_def scenario_docs_def field_values_def List.map_filter_def
        py_set_def set_add_def py_eq_def)
  from analyze_field_exact[OF a b c, where sample = "Inr []" and cs = "Inl ZeroDivisionError"]
    a b c
  show ?thesis by simp
qed

section \<open>Distinct counts against the value distribution\<close>

text \<open>
  Claim C10. The distinct count of a field is the number of different scalar values, taken
  as values (\<open>py_key\<close> identifies only what Python's \<open>==\<close> identifies), not as
  strings. For the sample in which a field is the integer 1 and then the string "1", the
  value distribution has the single entry \<open>("1", 2)\<close> and the distinct count is 2.
\<close>

theorem distinct_counts_raw_values:
  "(get_detailed_collection_stats coll = Inr st \<and> db_find coll = Inr cursor \<and>
      entry (distinct_counts st) field = Some n \<longrightarrow>
      n = card (py_key ` {v \<in> set (field_values field (take 100 cursor)). \<not> is_composite v})) \<and>
   (case get_detailed_collection_stats (example_store one_docs) of
      Inl e \<Rightarrow> False
    | Inr st1 \<Rightarrow> entry (value_distributions st1) ''f'' = Some [(''1'', 2)] \<and>
        entry (distinct_counts st1) ''f'' = Some 2)"
proof (intro conjI impI)
  assume h: "get_detailed_collection_stats coll = Inr st \<and> db_find coll = Inr cursor \<and>
      entry (distinct_counts st) field = Some n"
  then have "n = length (py_set (filter (\<lambda>v. \<not> is_composite v)
      (field_values field (take 100 cursor))))"
    using report_entries(4)[of coll st cursor field] by (simp split: if_splits)
  also have "\<dots> = card (py_key ` {v \<in> set (field_values field (take 100 cursor)). \<not> is_composite v})"
    unfolding py_set_length by (rule arg_cong[where f = "\<lambda>S. card (py_key ` S)"]) auto
  finally show "n = card (py_key ` {v \<in> set (field_values field (take 100 cursor)). \<not> is_composite v})" .
next
  obtain st where st: "get_detailed_collection_stats (example_store one_docs) = Inr st"
    using example_store_returns by blast
  have f: "db_find (example_store one_docs) = Inr one_docs"
    by (simp add: example_store_def)
  have "entry (value_distributions st) ''f'' = Some [(''1'', 2)]"
    unfolding report_entries(3)[OF st f]
    by (simp add: all_fields_def field_values_def List.map_filter_def one_docs_def
        field_distribution_def value_counts_def sorted_desc_def
        str_int_def str_nat.simps digit_char_def)
  moreover have "entry (distinct_counts st) ''f'' = Some 2"
    unfolding report_entries(4)[OF st f]
    by (simp add: all_fields_def field_values_def List.map_filter_def one_docs_def
        py_set_def set_add_def py_eq_def)
  ultimately show "case get_detailed_collection_stats (example_store one_docs) of
      Inl e \<Rightarrow> False
    | Inr st1 \<Rightarrow> entry (value_distributions st1) ''f'' = Some [(''1'', 2)] \<and>
        entry (distinct_counts st1) ''f'' = Some 2"
    using st by simp
qed

theorem distinct_counts_raw_values_witness:
  "\<exists>st. get_detailed_collection_stats (example_store one_docs) = Inr st \<and>
     db_find (example_store one_docs) = Inr one_docs \<and>
     entry (distinct_counts st) ''f'' = Some 2 \<and>
     entry (value_distributions st) ''f'' = Some [(''1'', 2)] \<and>
     (2 :: nat) = card (py_key ` {v \<in> set (field_values ''f'' (take 100 one_docs)). \<not> is_composite v})"
proof -
  obtain st where st: "get_detailed_collection_stats (example_store one_docs) = Inr st"
    using example_store_returns by blast
  have f: "db_find (example_store one_docs) = Inr one_docs"
    by (simp add: example_store_def)
  from distinct_counts_raw_values[of "example_store one_docs" st one_docs "''f''" 2] st f
  show ?thesis by auto
qed

end
